theory Spec2Isabelle
  imports Main "HOL-Library.Char_ord"
begin

section \<open>Python string primitives used by app.py\<close>

text \<open>
  Texts are modelled as \<open>string\<close>, one \<open>char\<close> per character, read as the code
  points 0 to 255 (ASCII and Latin-1). \<open>str.lower()\<close> maps \<open>A\<close>..\<open>Z\<close> and the
  Latin-1 capitals (192 to 222 without the multiplication sign 215) to the letter 32
  code points further on.
\<close>

datatype py_error = IndexError

definition lower_char :: "char \<Rightarrow> char" where
  "lower_char c =
     (let n = (of_char c :: nat)
      in if (65 \<le> n \<and> n \<le> 90) \<or> (192 \<le> n \<and> n \<le> 222 \<and> n \<noteq> 215)
         then char_of (n + 32) else c)"

definition lower :: "string \<Rightarrow> string" where
  "lower s = map lower_char s"

definition is_digit :: "char \<Rightarrow> bool" where
  "is_digit c = (CHR ''0'' \<le> c \<and> c \<le> CHR ''9'')"

definition is_alpha :: "char \<Rightarrow> bool" where
  "is_alpha c = ((CHR ''a'' \<le> c \<and> c \<le> CHR ''z'') \<or> (CHR ''A'' \<le> c \<and> c \<le> CHR ''Z''))"

text \<open>\<open>\s\<close> of \<open>re\<close> and the characters removed by \<open>str.strip()\<close>.\<close>

definition is_space :: "char \<Rightarrow> bool" where
  "is_space c =
     (let n = (of_char c :: nat)
      in (9 \<le> n \<and> n \<le> 13) \<or> (28 \<le> n \<and> n \<le> 32) \<or> n = 133 \<or> n = 160)"

text \<open>
  \<open>\w\<close> of \<open>re\<close> for a \<open>str\<close> pattern: the underscore and the characters with
  \<open>isalnum()\<close>, which up to code point 255 are the ASCII letters and digits, the
  Latin-1 letters, and the ordinal indicators, superscript digits, micro sign and
  fractions.
\<close>

definition is_word :: "char \<Rightarrow> bool" where
  "is_word c =
     (let n = (of_char c :: nat)
      in is_alpha c \<or> is_digit c \<or> c = CHR ''_''
         \<or> n = 170 \<or> n = 178 \<or> n = 179 \<or> n = 181 \<or> n = 185 \<or> n = 186
         \<or> (188 \<le> n \<and> n \<le> 190) \<or> (192 \<le> n \<and> n \<le> 214)
         \<or> (216 \<le> n \<and> n \<le> 246) \<or> (248 \<le> n \<and> n \<le> 255))"

text \<open>\<open>s.split(sep)\<close> for a one-character separator: never the empty list.\<close>

fun split_on :: "char \<Rightarrow> string \<Rightarrow> string list" where
  "split_on sep [] = [[]]"
| "split_on sep (c # cs) =
     (if c = sep then [] # split_on sep cs
      else (case split_on sep cs of
              [] \<Rightarrow> [[c]]
            | w # ws \<Rightarrow> (c # w) # ws))"

text \<open>\<open>xs[i]\<close>: raises IndexError out of range.\<close>

fun index :: "'a list \<Rightarrow> nat \<Rightarrow> py_error + 'a" where
  "index [] i = Inl IndexError"
| "index (x # xs) 0 = Inr x"
| "index (x # xs) (Suc i) = index xs i"

fun starts_with :: "string \<Rightarrow> string \<Rightarrow> bool" where
  "starts_with s [] = True"
| "starts_with [] (p # ps) = False"
| "starts_with (c # cs) (p # ps) = (c = p \<and> starts_with cs ps)"

text \<open>
  \<open>sub in s\<close>; also \<open>re.search(sub, s)\<close> for a pattern \<open>sub\<close> without regex
  metacharacters, which is a plain substring search.
\<close>

fun contains :: "string \<Rightarrow> string \<Rightarrow> bool" where
  "contains [] sub = (sub = [])"
| "contains (c # cs) sub = (starts_with (c # cs) sub \<or> contains cs sub)"

definition strip :: "string \<Rightarrow> string" where
  "strip s = rev (dropWhile is_space (rev (dropWhile is_space s)))"

section \<open>EnhancedWebScraper.is_valid_email\<close>

definition excluded_domains :: "string list" where
  "excluded_domains =
     [''example.com'', ''test.com'', ''domain.com'', ''yoursite.com'',
      ''google.com'', ''facebook.com'', ''twitter.com'', ''linkedin.com'',
      ''instagram.com'', ''youtube.com'', ''github.com'', ''sentry.io'',
      ''gravatar.com'', ''w3.org'', ''schema.org'', ''mozilla.org'']"

text \<open>
  The texts matched by the regexes of \<open>fake_patterns\<close>; the only metacharacter is the
  escaped dot of \<open>@example\.com\<close>, which matches a literal dot.
\<close>

definition fake_patterns :: "string list" where
  "fake_patterns =
     [''noreply'', ''no-reply'', ''donotreply'', ''test@'',
      ''admin@example'', ''user@example'', ''@example.com'',
      ''placeholder'', ''dummy'', ''fake'']"

text \<open>
  The body of the \<open>try\<close> block. \<open>email.split('@')[1]\<close> is an indexing that can raise;
  the \<open>or\<close> of the first test evaluates it only when \<open>'@' in email\<close>.
\<close>

definition is_valid_email_try :: "string \<Rightarrow> py_error + bool" where
  "is_valid_email_try email =
     (if CHR ''@'' \<notin> set email then Inr False
      else (case index (split_on CHR ''@'' email) 1 of
              Inl e \<Rightarrow> Inl e
            | Inr d \<Rightarrow>
                if CHR ''.'' \<notin> set d then Inr False
                else if lower d \<in> set excluded_domains then Inr False
                else if list_ex (contains (lower email)) fake_patterns then Inr False
                else Inr True))"

text \<open>The \<open>except:\<close> clause turns every exception into \<open>False\<close>.\<close>

definition is_valid_email :: "string \<Rightarrow> bool" where
  "is_valid_email email =
     (case is_valid_email_try email of Inl e \<Rightarrow> False | Inr b \<Rightarrow> b)"

section \<open>The regular expressions of EnhancedWebScraper\<close>

text \<open>
  The fragment of \<open>re\<close> that the patterns of app.py use, with the matching order of
  a backtracking engine: a greedy quantifier tries the longest repetition first, an
  alternation its left branch first, an optional part its presence first.
\<close>

datatype regex =
    Eps
  | Chr "char \<Rightarrow> bool"
  | Lit string
  | Seq regex regex
  | Alt regex regex
  | Opt regex
  | Rep "char \<Rightarrow> bool" nat "nat option"
  | Grp regex
  | Bnd

text \<open>
  A matcher state: the groups captured so far, the character before the current
  position (\<open>None\<close> at the start of the text) and the text still to read.
\<close>

type_synonym mstate = "string list \<times> char option \<times> string"

text \<open>A literal under \<open>re.IGNORECASE\<close>.\<close>

fun lit :: "string \<Rightarrow> string list \<Rightarrow> char option \<Rightarrow> string \<Rightarrow> mstate list" where
  "lit [] g p s = [(g, p, s)]"
| "lit (l # ls) g p [] = []"
| "lit (l # ls) g p (c # cs) =
     (if lower_char c = lower_char l then lit ls g (Some c) cs else [])"

text \<open>\<open>[class]{lo,hi}\<close>, greedy; \<open>hi = None\<close> is no upper bound.\<close>

fun rep :: "(char \<Rightarrow> bool) \<Rightarrow> nat \<Rightarrow> nat option \<Rightarrow> string list \<Rightarrow> char option \<Rightarrow> string
    \<Rightarrow> mstate list" where
  "rep P lo hi g p [] = (if lo = 0 then [(g, p, [])] else [])"
| "rep P lo hi g p (c # cs) =
     (if P c \<and> hi \<noteq> Some 0
      then rep P (lo - 1) (map_option (\<lambda>n. n - 1) hi) g (Some c) cs else [])
     @ (if lo = 0 then [(g, p, c # cs)] else [])"

definition word_before :: "char option \<Rightarrow> bool" where
  "word_before p = (case p of None \<Rightarrow> False | Some c \<Rightarrow> is_word c)"

definition word_after :: "string \<Rightarrow> bool" where
  "word_after s = (case s of [] \<Rightarrow> False | c # cs \<Rightarrow> is_word c)"

text \<open>
  All the ways the pattern matches at the current position, in the order in which the
  engine tries them; the engine's match is the first one.
\<close>

fun rmatch :: "regex \<Rightarrow> mstate \<Rightarrow> mstate list" where
  "rmatch Eps st = [st]"
| "rmatch (Chr P) (g, p, s) =
     (case s of [] \<Rightarrow> [] | c # cs \<Rightarrow> if P c then [(g, Some c, cs)] else [])"
| "rmatch (Lit l) (g, p, s) = lit l g p s"
| "rmatch (Seq a b) st = concat (map (rmatch b) (rmatch a st))"
| "rmatch (Alt a b) st = rmatch a st @ rmatch b st"
| "rmatch (Opt a) st = rmatch a st @ [st]"
| "rmatch (Rep P lo hi) (g, p, s) = rep P lo hi g p s"
| "rmatch (Grp a) (g, p, s) =
     map (\<lambda>(g', p', s'). (g' @ [take (length s - length s') s], p', s'))
       (rmatch a (g, p, s))"
| "rmatch Bnd (g, p, s) = (if word_before p \<noteq> word_after s then [(g, p, s)] else [])"

text \<open>
  \<open>pattern.findall(text)\<close>: the matches from left to right, without overlap; each with
  its groups and the matched text. After a match the search goes on where the match
  ended, and one character further where nothing matched (or the match was empty,
  which no pattern of app.py allows).
\<close>

fun findall_from :: "regex \<Rightarrow> char option \<Rightarrow> string \<Rightarrow> (string list \<times> string) list" where
  "findall_from r p s =
     (case rmatch r ([], p, s) of
        [] \<Rightarrow> (case s of [] \<Rightarrow> [] | c # cs \<Rightarrow> findall_from r (Some c) cs)
      | (g, p', s') # _ \<Rightarrow>
          (g, take (length s - length s') s) #
          (if length s' < length s then findall_from r p' s'
           else (case s of [] \<Rightarrow> [] | c # cs \<Rightarrow> findall_from r (Some c) cs)))"

declare findall_from.simps [simp del]

definition findall :: "regex \<Rightarrow> string \<Rightarrow> (string list \<times> string) list" where
  "findall r text = findall_from r None text"

definition seq :: "regex list \<Rightarrow> regex" where
  "seq rs = foldr Seq rs Eps"

definition chr :: "char \<Rightarrow> regex" where
  "chr c = Chr (\<lambda>d. d = c)"

text \<open>The character classes \<open>[A-Za-z0-9._%+-]\<close>, \<open>[A-Za-z0-9.-]\<close>, \<open>[A-Z|a-z]\<close>
  (the bar is a member of the class) and \<open>[-.\s]\<close>.\<close>

definition cls_local :: "char \<Rightarrow> bool" where
  "cls_local c = (is_alpha c \<or> is_digit c \<or> c \<in> set ''._%+-'')"

definition cls_domain :: "char \<Rightarrow> bool" where
  "cls_domain c = (is_alpha c \<or> is_digit c \<or> c \<in> set ''.-'')"

definition cls_tld :: "char \<Rightarrow> bool" where
  "cls_tld c = (is_alpha c \<or> c = CHR ''|'')"

definition cls_sep :: "char \<Rightarrow> bool" where
  "cls_sep c = (c \<in> set ''-.'' \<or> is_space c)"

text \<open>\<open>\b[A-Za-z0-9._%+-]+@[A-Za-z0-9.-]+\.[A-Z|a-z]{2,}\b\<close>\<close>

definition email_pattern :: regex where
  "email_pattern =
     seq [Bnd, Rep cls_local 1 None, chr CHR ''@'', Rep cls_domain 1 None,
          chr CHR ''.'', Rep cls_tld 2 None, Bnd]"

text \<open>
  \<open>(?:\+?1[-.\s]?)?(?:\(?[0-9]{3}\)?[-.\s]?)?[0-9]{3}[-.\s]?[0-9]{4}\<close>,
  \<open>(?:\+49[-.\s]?)?(?:\(?[0-9]{3,4}\)?[-.\s]?)?[0-9]{6,8}\<close> and the same with
  \<open>+44\<close>, tried in this order.
\<close>

definition phone_us :: regex where
  "phone_us =
     seq [Opt (seq [Opt (chr CHR ''+''), chr CHR ''1'', Opt (Chr cls_sep)]),
          Opt (seq [Opt (chr CHR ''(''), Rep is_digit 3 (Some 3), Opt (chr CHR '')''),
                    Opt (Chr cls_sep)]),
          Rep is_digit 3 (Some 3), Opt (Chr cls_sep), Rep is_digit 4 (Some 4)]"

definition phone_intl :: "string \<Rightarrow> regex" where
  "phone_intl cc =
     seq [Opt (seq [Lit cc, Opt (Chr cls_sep)]),
          Opt (seq [Opt (chr CHR ''(''), Rep is_digit 3 (Some 4), Opt (chr CHR '')''),
                    Opt (Chr cls_sep)]),
          Rep is_digit 6 (Some 8)]"

definition phone_pattern :: regex where
  "phone_pattern = Alt phone_us (Alt (phone_intl ''+49'') (phone_intl ''+44''))"

text \<open>
  The three \<open>obfuscated_patterns\<close>, each with the groups local, domain and tld:
  \<open>([a-zA-Z0-9._%+-]+)\s*\[?\s*(?:at|@)\s*\]?\s*([a-zA-Z0-9.-]+)\s*\[?\s*(?:dot|\.)\s*\]?\s*([a-zA-Z]{2,})\<close>,
  \<open>([a-zA-Z0-9._%+-]+)\s*\(at\)\s*([a-zA-Z0-9.-]+)\s*\(dot\)\s*([a-zA-Z]{2,})\<close> and
  \<open>([a-zA-Z0-9._%+-]+)\s*AT\s*([a-zA-Z0-9.-]+)\s*DOT\s*([a-zA-Z]{2,})\<close>.
\<close>

definition spaces :: regex where
  "spaces = Rep is_space 0 None"

definition obfuscated_patterns :: "regex list" where
  "obfuscated_patterns =
     [seq [Grp (Rep cls_local 1 None), spaces, Opt (chr CHR ''[''), spaces,
           Alt (Lit ''at'') (chr CHR ''@''), spaces, Opt (chr CHR '']''), spaces,
           Grp (Rep cls_domain 1 None), spaces, Opt (chr CHR ''[''), spaces,
           Alt (Lit ''dot'') (chr CHR ''.''), spaces, Opt (chr CHR '']''), spaces,
           Grp (Rep is_alpha 2 None)],
      seq [Grp (Rep cls_local 1 None), spaces, Lit ''(at)'', spaces,
           Grp (Rep cls_domain 1 None), spaces, Lit ''(dot)'', spaces,
           Grp (Rep is_alpha 2 None)],
      seq [Grp (Rep cls_local 1 None), spaces, Lit ''AT'', spaces,
           Grp (Rep cls_domain 1 None), spaces, Lit ''DOT'', spaces,
           Grp (Rep is_alpha 2 None)]]"

section \<open>EnhancedWebScraper.extract_contacts_from_text\<close>

text \<open>\<open>re.sub(r'[^\d+]', '', phone)\<close>: the digits and the plus signs of \<open>phone\<close>.\<close>

definition cleaned_phone :: "string \<Rightarrow> string" where
  "cleaned_phone phone = filter (\<lambda>c. is_digit c \<or> c = CHR ''+'') phone"

text \<open>
  The email of one match of an obfuscated pattern, whose groups are local, domain and
  tld: the f-string that puts an \<open>@\<close> and a dot between them, then
  \<open>.replace(' ', '')\<close>.
\<close>

fun rebuilt_emails :: "string list \<times> string \<Rightarrow> string list" where
  "rebuilt_emails ([local, domain, tld], whole) =
     [filter (\<lambda>c. c \<noteq> CHR '' '') (local @ ''@'' @ domain @ ''.'' @ tld)]"
| "rebuilt_emails (groups, whole) = []"

definition found_emails :: "string \<Rightarrow> string list" where
  "found_emails text = map snd (findall email_pattern text)"

definition found_phones :: "string \<Rightarrow> string list" where
  "found_phones text = map snd (findall phone_pattern text)"

definition obfuscated_emails :: "string \<Rightarrow> string list" where
  "obfuscated_emails text =
     concat (map (\<lambda>pattern. concat (map rebuilt_emails (findall pattern text)))
       obfuscated_patterns)"

definition extract_contacts_from_text :: "string \<Rightarrow> string set \<times> string set" where
  "extract_contacts_from_text text =
     (set (map lower (filter is_valid_email (found_emails text)))
        \<union> set (map lower (filter is_valid_email (obfuscated_emails text))),
      set (filter (\<lambda>phone. 10 \<le> length (cleaned_phone phone)) (found_phones text)))"

section \<open>categorize_emails\<close>

text \<open>
  Dictionaries with string keys are association lists in insertion order, the order in
  which Python iterates over them.
\<close>

type_synonym 'v dict = "(string \<times> 'v) list"

definition initial_categories :: "string list dict" where
  "initial_categories =
     [(''executive'', []), (''sales'', []), (''support'', []), (''hr'', []),
      (''general'', []), (''technical'', []), (''marketing'', []), (''finance'', []),
      (''personal'', [])]"

definition patterns :: "string list dict" where
  "patterns =
     [(''executive'', [''ceo'', ''president'', ''director'', ''manager'', ''chief'',
                       ''geschaeftsfueh'', ''vorstand'']),
      (''sales'', [''sales'', ''business'', ''commercial'', ''vertrieb'', ''verkauf'']),
      (''support'', [''support'', ''help'', ''service'', ''kunde'', ''customer'']),
      (''hr'', [''hr'', ''personal'', ''bewerbung'', ''career'', ''jobs'', ''recruiting'']),
      (''technical'', [''tech'', ''it'', ''dev'', ''admin'', ''webmaster'', ''engineering'']),
      (''marketing'', [''marketing'', ''promotion'', ''pr'', ''media'', ''communication'']),
      (''finance'', [''finance'', ''accounting'', ''billing'', ''invoice'', ''buchhal'']),
      (''general'', [''info'', ''contact'', ''office'', ''hello'', ''kontakt'', ''mail''])]"

text \<open>
  The two nested \<open>for\<close> loops with their \<open>break\<close>s: the first category, in the order
  of \<open>patterns\<close>, one of whose patterns \<open>re.search\<close> finds in the local part.
\<close>

fun first_match :: "string list dict \<Rightarrow> string \<Rightarrow> string option" where
  "first_match [] local_part = None"
| "first_match ((category, pattern_list) # rest) local_part =
     (if list_ex (contains local_part) pattern_list then Some category
      else first_match rest local_part)"

text \<open>\<open>categories[category].append(email)\<close>\<close>

definition append_to :: "string \<Rightarrow> string \<Rightarrow> string list dict \<Rightarrow> string list dict" where
  "append_to category email categories =
     map (\<lambda>(k, v). if k = category then (k, v @ [email]) else (k, v)) categories"

text \<open>
  One round of the loop over \<open>emails\<close>. \<open>email.split('@')[0]\<close> is the head of a list
  that is never empty.
\<close>

definition categorize_one :: "string list dict \<Rightarrow> string \<Rightarrow> string list dict" where
  "categorize_one categories email =
     (let local_part = lower (hd (split_on CHR ''@'' email))
      in case first_match patterns local_part of
           Some category \<Rightarrow> append_to category email categories
         | None \<Rightarrow>
             if CHR ''.'' \<in> set local_part \<and> length (split_on CHR ''.'' local_part) = 2
             then append_to ''personal'' email categories
             else append_to ''general'' email categories)"

definition categorize_emails :: "string list \<Rightarrow> string list dict" where
  "categorize_emails emails =
     filter (\<lambda>(k, v). v \<noteq> []) (foldl categorize_one initial_categories emails)"

text \<open>
  The order of the rule-groups written out: the first of executive, sales,
  support, hr, technical, marketing, finance, general, in this order, one of whose
  patterns occurs in the local part.
\<close>

definition rule_group_in_order :: "string \<Rightarrow> string option" where
  "rule_group_in_order local_part =
     (if list_ex (contains local_part)
           [''ceo'', ''president'', ''director'', ''manager'', ''chief'',
            ''geschaeftsfueh'', ''vorstand'']
      then Some ''executive''
      else if list_ex (contains local_part)
           [''sales'', ''business'', ''commercial'', ''vertrieb'', ''verkauf'']
      then Some ''sales''
      else if list_ex (contains local_part)
           [''support'', ''help'', ''service'', ''kunde'', ''customer'']
      then Some ''support''
      else if list_ex (contains local_part)
           [''hr'', ''personal'', ''bewerbung'', ''career'', ''jobs'', ''recruiting'']
      then Some ''hr''
      else if list_ex (contains local_part)
           [''tech'', ''it'', ''dev'', ''admin'', ''webmaster'', ''engineering'']
      then Some ''technical''
      else if list_ex (contains local_part)
           [''marketing'', ''promotion'', ''pr'', ''media'', ''communication'']
      then Some ''marketing''
      else if list_ex (contains local_part)
           [''finance'', ''accounting'', ''billing'', ''invoice'', ''buchhal'']
      then Some ''finance''
      else if list_ex (contains local_part)
           [''info'', ''contact'', ''office'', ''hello'', ''kontakt'', ''mail'']
      then Some ''general''
      else None)"

section \<open>parse_markdown_table\<close>




definition split_cells :: "string \<Rightarrow> string list" where
  "split_cells line = map strip (split_on CHR ''|'' line)"

text \<open>\<open>while cells and not cells[0]: cells.pop(0)\<close>\<close>

fun pop_leading :: "string list \<Rightarrow> string list" where
  "pop_leading [] = []"
| "pop_leading (c # cs) = (if c = [] then pop_leading cs else c # cs)"

text \<open>\<open>while cells and not cells[-1]: cells.pop()\<close>\<close>

function pop_trailing :: "string list \<Rightarrow> string list" where
  "pop_trailing cells =
     (if cells \<noteq> [] \<and> last cells = [] then pop_trailing (butlast cells) else cells)"
  by pat_completeness auto
termination
  by (relation "measure length") auto

declare pop_trailing.simps [simp del]

text \<open>\<open>while len(cells) < len(headers): cells.append("")\<close>\<close>

function pad_cells :: "nat \<Rightarrow> string list \<Rightarrow> string list" where
  "pad_cells n cells = (if length cells < n then pad_cells n (cells @ [[]]) else cells)"
  by pat_completeness auto
termination
  by (relation "measure (\<lambda>(n, cells). n - length cells)") auto

declare pad_cells.simps [simp del]

text \<open>The body of the loop over \<open>table_lines[1:]\<close>, up to the test that keeps the row.\<close>

definition row_cells :: "nat \<Rightarrow> string \<Rightarrow> string list" where
  "row_cells n line =
     (let cells = pad_cells n (pop_trailing (pop_leading (split_cells line)))
      in if length cells > n then take n cells else cells)"

definition parse_rows :: "nat \<Rightarrow> string list \<Rightarrow> string list list" where
  "parse_rows n lines =
     filter (list_ex (\<lambda>cell. strip cell \<noteq> [])) (map (row_cells n) lines)"




text \<open>
  What the two pop loops leave of the cells of a line: every empty cell at either end
  is gone, however many there are.
\<close>

definition trimmed_cells :: "string \<Rightarrow> string list" where
  "trimmed_cells line =
     rev (dropWhile (\<lambda>c. c = []) (rev (dropWhile (\<lambda>c. c = []) (split_cells line))))"


definition fit_to_width :: "nat \<Rightarrow> string list \<Rightarrow> string list" where
  "fit_to_width n cells = take n (cells @ replicate (n - length cells) [])"

section \<open>The aggregation of the results in main\<close>

text \<open>
  \<open>all_emails\<close>, \<open>all_phones\<close> and \<open>method_results\<close>, the results storage of one
  research run; \<open>method_results\<close> maps a method to the emails it found.
\<close>

record aggregate =
  all_emails :: "string set"
  all_phones :: "string set"
  method_results :: "string set dict"

definition empty_aggregate :: aggregate where
  "empty_aggregate = \<lparr>all_emails = {}, all_phones = {}, method_results = []\<rparr>"

text \<open>\<open>d[k] = v\<close>: an existing key keeps its place, a new one goes to the end.\<close>

definition dict_set :: "string \<Rightarrow> 'v \<Rightarrow> 'v dict \<Rightarrow> 'v dict" where
  "dict_set k v d =
     (if k \<in> fst ` set d then map (\<lambda>(k', v'). if k' = k then (k', v) else (k', v')) d
      else d @ [(k, v)])"

text \<open>What one research method hands over: its key in \<open>method_results\<close> and its finds.\<close>

record source_result =
  source_id :: string
  emails :: "string set"
  phones :: "string set"

text \<open>
  The three statements with which main takes the finds of a method in:
  \<open>all_emails.update(emails)\<close>, \<open>all_phones.update(phones)\<close> and
  \<open>method_results[source_id] = emails\<close>.
\<close>

definition merge :: "aggregate \<Rightarrow> source_result \<Rightarrow> aggregate" where
  "merge agg src =
     agg\<lparr>all_emails := all_emails agg \<union> emails src,
         all_phones := all_phones agg \<union> phones src,
         method_results := dict_set (source_id src) (emails src) (method_results agg)\<rparr>"

text \<open>
  What the collaborators return in one run; \<open>None\<close> where the method is not selected
  or its block does not reach the statements above (no \<open>emails\<close> in the WHOIS record,
  no table in the answer of the language model).
\<close>

record research =
  whois_info_emails :: "string list option"
  scraping_results :: "(string set \<times> string set) option"
  web_results :: "(string set \<times> string set) option"
  ai_emails :: "string set option"

definition whois_step :: "research \<Rightarrow> aggregate \<Rightarrow> aggregate" where
  "whois_step r agg =
     (case whois_info_emails r of
        None \<Rightarrow> agg
      | Some found \<Rightarrow>
          merge agg \<lparr>source_id = ''whois'', emails = set (map lower found), phones = {}\<rparr>)"

text \<open>\<open>if scraping_results['emails'] or scraping_results['phones']:\<close> guards the merge.\<close>

definition scraping_step :: "research \<Rightarrow> aggregate \<Rightarrow> aggregate" where
  "scraping_step r agg =
     (case scraping_results r of
        None \<Rightarrow> agg
      | Some (es, ps) \<Rightarrow>
          if es \<noteq> {} \<or> ps \<noteq> {}
          then merge agg \<lparr>source_id = ''website_scraping'', emails = es, phones = ps\<rparr>
          else agg)"

definition web_step :: "research \<Rightarrow> aggregate \<Rightarrow> aggregate" where
  "web_step r agg =
     (case web_results r of
        None \<Rightarrow> agg
      | Some (es, ps) \<Rightarrow>
          if es \<noteq> {} \<or> ps \<noteq> {}
          then merge agg \<lparr>source_id = ''web_search'', emails = es, phones = ps\<rparr>
          else agg)"

definition ai_step :: "research \<Rightarrow> aggregate \<Rightarrow> aggregate" where
  "ai_step r agg =
     (case ai_emails r of
        None \<Rightarrow> agg
      | Some es \<Rightarrow> merge agg \<lparr>source_id = ''ai_research'', emails = es, phones = {}\<rparr>)"

text \<open>The four methods in the order of main.\<close>

definition main_aggregate :: "research \<Rightarrow> aggregate" where
  "main_aggregate r =
     ai_step r (web_step r (scraping_step r (whois_step r empty_aggregate)))"

text \<open>
  The source results that the run merges, in the order of main: one for each method
  whose block reaches the three statements of \<open>merge\<close>, each under the key of its
  method.
\<close>

definition source_results :: "research \<Rightarrow> source_result list" where
  "source_results r =
     (case whois_info_emails r of
        None \<Rightarrow> []
      | Some found \<Rightarrow>
          [\<lparr>source_id = ''whois'', emails = set (map lower found), phones = {}\<rparr>])
     @ (case scraping_results r of
          None \<Rightarrow> []
        | Some (es, ps) \<Rightarrow>
            if es \<noteq> {} \<or> ps \<noteq> {}
            then [\<lparr>source_id = ''website_scraping'', emails = es, phones = ps\<rparr>] else [])
     @ (case web_results r of
          None \<Rightarrow> []
        | Some (es, ps) \<Rightarrow>
            if es \<noteq> {} \<or> ps \<noteq> {}
            then [\<lparr>source_id = ''web_search'', emails = es, phones = ps\<rparr>] else [])
     @ (case ai_emails r of
          None \<Rightarrow> []
        | Some es \<Rightarrow> [\<lparr>source_id = ''ai_research'', emails = es, phones = {}\<rparr>])"

subsection \<open>The export\<close>

text \<open>\<open>sep.join(xs)\<close>\<close>

fun join :: "string \<Rightarrow> string list \<Rightarrow> string" where
  "join sep [] = []"
| "join sep [x] = x"
| "join sep (x # y # ys) = x @ sep @ join sep (y # ys)"

definition upper_char :: "char \<Rightarrow> char" where
  "upper_char c =
     (if CHR ''a'' \<le> c \<and> c \<le> CHR ''z'' then char_of (of_char c - (32::nat)) else c)"

text \<open>\<open>str.title()\<close>: a letter after a letter in lower case, any other letter in upper
  case.\<close>

fun title_from :: "bool \<Rightarrow> string \<Rightarrow> string" where
  "title_from after_letter [] = []"
| "title_from after_letter (c # cs) =
     (if is_alpha c
      then (if after_letter then lower_char c else upper_char c) # title_from True cs
      else c # title_from False cs)"

definition title :: "string \<Rightarrow> string" where
  "title s = title_from False s"

text \<open>The inputs of the form and the formatted time of the export.\<close>

record form =
  company :: string
  website :: string
  country :: string
  industry :: string
  research_methods :: "string list"
  research_date :: string

record export_row =
  Contact :: string
  Type :: string
  Category :: string
  Found_By :: string
  Company :: string
  Website :: string
  Country :: string
  Industry :: string
  Research_Date :: string
  Research_Methods :: string

text \<open>
  The methods of \<open>method_results\<close>, in its order, whose emails contain \<open>email\<close>: the
  \<open>found_by_methods\<close> of the export loop.
\<close>

definition found_by_methods :: "string set dict \<Rightarrow> string \<Rightarrow> string list" where
  "found_by_methods results email = map fst (filter (\<lambda>(method, method_emails). email \<in> method_emails) results)"

definition email_row :: "form \<Rightarrow> aggregate \<Rightarrow> string \<Rightarrow> string \<Rightarrow> export_row" where
  "email_row f agg category email =
     \<lparr>Contact = email, Type = ''Email'', Category = title category,
      Found_By = join '', '' (found_by_methods (method_results agg) email),
      Company = company f, Website = website f, Country = country f,
      Industry = industry f, Research_Date = research_date f,
      Research_Methods = join '', '' (research_methods f)\<rparr>"

definition phone_row :: "form \<Rightarrow> string \<Rightarrow> export_row" where
  "phone_row f phone =
     \<lparr>Contact = phone, Type = ''Phone'', Category = ''General'',
      Found_By = ''multi-source'',
      Company = company f, Website = website f, Country = country f,
      Industry = industry f, Research_Date = research_date f,
      Research_Methods = join '', '' (research_methods f)\<rparr>"

text \<open>
  \<open>export_data\<close>; \<open>email_list\<close> is \<open>list(all_emails)\<close> and \<open>phone_list\<close> the order in
  which \<open>for phone in all_phones\<close> visits the set, both orders being Python's choice.
\<close>

definition export_data :: "form \<Rightarrow> aggregate \<Rightarrow> string list \<Rightarrow> string list \<Rightarrow> export_row list" where
  "export_data f agg email_list phone_list =
     (if all_emails agg \<noteq> {}
      then concat (map (\<lambda>(category, es). map (email_row f agg category) es)
                    (categorize_emails email_list))
      else [])
     @ (if all_phones agg \<noteq> {} then map (phone_row f) phone_list else [])"

text \<open>
  The provenance that the code keeps: every aggregated email is among the emails of at
  least one method of \<open>method_results\<close>.
\<close>

definition sourced :: "aggregate \<Rightarrow> bool" where
  "sourced agg =
     (\<forall>e \<in> all_emails agg. found_by_methods (method_results agg) e \<noteq> [])"

text \<open>The runs and the sources of the examples.\<close>

definition example_form :: form where
  "example_form =
     \<lparr>company = ''Acme'', website = ''https://acme.co'', country = ''Germany'',
      industry = [], research_methods = [''Website Scraping'', ''Web Search''],
      research_date = ''2024-01-01 10:00''\<rparr>"

definition example_research :: research where
  "example_research =
     \<lparr>whois_info_emails = Some [''Hostmaster@Acme.co''],
      scraping_results = Some ({''jane.doe@x.com''}, {''555-123-4567''}),
      web_results = Some ({''jane.doe@x.com''}, {}),
      ai_emails = None\<rparr>"

definition phone_only_research :: research where
  "phone_only_research =
     \<lparr>whois_info_emails = None,
      scraping_results = Some ({}, {''555-123-4567''}),
      web_results = None,
      ai_emails = None\<rparr>"

definition two_formats_research :: research where
  "two_formats_research =
     \<lparr>whois_info_emails = None,
      scraping_results = None,
      web_results = Some (extract_contacts_from_text ''555-123-4567 555.123.4567''),
      ai_emails = None\<rparr>"





section \<open>Facts about the string primitives\<close>

lemma split_on_not_Nil: "split_on c s \<noteq> []"
  by (induction s) (auto split: list.splits)

lemma split_on_length: "c \<in> set s \<Longrightarrow> 2 \<le> length (split_on c s)"
  by (induction s) (auto split: list.splits simp: split_on_not_Nil)

lemma split_on_absent: "c \<notin> set s \<Longrightarrow> split_on c s = [s]"
  by (induction s) auto

lemma split_on_two_has_sep: "length (split_on c s) = 2 \<Longrightarrow> c \<in> set s"
  using split_on_absent[of c s] by (cases "c \<in> set s") auto

lemma index_in_range: "i < length xs \<Longrightarrow> index xs i = Inr (xs ! i)"
  by (induction xs i rule: index.induct) auto

lemma index_map:
  "index (map f xs) i = (case index xs i of Inl e \<Rightarrow> Inl e | Inr x \<Rightarrow> Inr (f x))"
  by (induction xs i rule: index.induct) auto

lemma lower_char_cases:
  "lower_char c = c \<or>
   ((of_char (lower_char c) :: nat) = of_char c + 32 \<and> 65 \<le> (of_char c :: nat))"
  by (auto simp: lower_char_def Let_def)

lemma lower_char_idem: "lower_char (lower_char c) = lower_char c"
proof (cases "lower_char c = c")
  case True
  then show ?thesis by simp
next
  case False
  then have up: "(65 \<le> (of_char c :: nat) \<and> (of_char c :: nat) \<le> 90)
      \<or> (192 \<le> (of_char c :: nat) \<and> (of_char c :: nat) \<le> 222)"
    by (auto simp: lower_char_def Let_def split: if_splits)
  from False lower_char_cases[of c]
  have "(of_char (lower_char c) :: nat) = of_char c + 32" by blast
  with up have "\<not> ((65 \<le> (of_char (lower_char c) :: nat) \<and> (of_char (lower_char c) :: nat) \<le> 90)
      \<or> (192 \<le> (of_char (lower_char c) :: nat) \<and> (of_char (lower_char c) :: nat) \<le> 222
          \<and> (of_char (lower_char c) :: nat) \<noteq> 215))"
    by arith
  then show ?thesis by (subst lower_char_def) (auto simp: Let_def)
qed

lemma lower_idem: "lower (lower s) = lower s"
  by (simp add: lower_def lower_char_idem)

lemma lower_char_at: "lower_char c = CHR ''@'' \<longleftrightarrow> c = CHR ''@''"
proof
  assume eq: "lower_char c = CHR ''@''"
  show "c = CHR ''@''"
  proof (rule ccontr)
    assume "c \<noteq> CHR ''@''"
    with eq lower_char_cases[of c]
    have "(of_char (lower_char c) :: nat) = of_char c + 32 \<and> 65 \<le> (of_char c :: nat)"
      by auto
    with eq show False by auto
  qed
next
  assume "c = CHR ''@''"
  then show "lower_char c = CHR ''@''" by (simp add: lower_char_def)
qed

lemma lower_char_dot: "lower_char c = CHR ''.'' \<longleftrightarrow> c = CHR ''.''"
proof
  assume eq: "lower_char c = CHR ''.''"
  show "c = CHR ''.''"
  proof (rule ccontr)
    assume "c \<noteq> CHR ''.''"
    with eq lower_char_cases[of c]
    have "(of_char (lower_char c) :: nat) = of_char c + 32 \<and> 65 \<le> (of_char c :: nat)"
      by auto
    with eq show False by auto
  qed
next
  assume "c = CHR ''.''"
  then show "lower_char c = CHR ''.''" by (simp add: lower_char_def)
qed

lemma split_on_lower_at: "split_on CHR ''@'' (lower s) = map lower (split_on CHR ''@'' s)"
  by (induction s) (auto simp: lower_def lower_char_at split: list.splits)

lemma at_in_lower: "CHR ''@'' \<in> set (lower s) \<longleftrightarrow> CHR ''@'' \<in> set s"
proof -
  have "\<And>c. (CHR ''@'' = lower_char c) = (c = CHR ''@'')"
    using lower_char_at by (metis (full_types))
  then show ?thesis by (simp add: lower_def image_iff)
qed

lemma dot_in_lower: "CHR ''.'' \<in> set (lower s) \<longleftrightarrow> CHR ''.'' \<in> set s"
proof -
  have "\<And>c. (CHR ''.'' = lower_char c) = (c = CHR ''.'')"
    using lower_char_dot by (metis (full_types))
  then show ?thesis by (simp add: lower_def image_iff)
qed

section \<open>The validator\<close>

text \<open>Nothing in the body of \<open>is_valid_email\<close> raises: the index 1 is read only
  behind the test for an \<open>@\<close>.\<close>

lemma is_valid_email_try_total: "\<exists>b. is_valid_email_try email = Inr b"
  using split_on_length[of "CHR ''@''" email]
    index_in_range[of 1 "split_on CHR ''@'' email"]
  by (auto simp: is_valid_email_try_def)

text \<open>The validator does not see the case of the letters.\<close>

lemma is_valid_email_try_lower: "is_valid_email_try (lower e) = is_valid_email_try e"
  by (auto simp: is_valid_email_try_def at_in_lower split_on_lower_at index_map
      dot_in_lower lower_idem split: sum.splits)

lemma is_valid_email_lower: "is_valid_email (lower e) = is_valid_email e"
  by (simp add: is_valid_email_def is_valid_email_try_lower)

text \<open>What the validator accepts, in terms of the parts that \<open>split('@')\<close> gives.\<close>

lemma split_on_parts_has_sep: "split_on c s = x # y # rest \<Longrightarrow> c \<in> set s"
  using split_on_absent[of c s] by (cases "c \<in> set s") auto

lemma split_on_second:
  assumes "c \<in> set s"
  shows "\<exists>x y rest. split_on c s = x # y # rest"
proof -
  obtain x xs where xs: "split_on c s = x # xs"
    using split_on_not_Nil[of c s] by (cases "split_on c s") auto
  with split_on_length[OF assms] have "xs \<noteq> []" by auto
  then obtain y rest where "xs = y # rest" by (cases xs) auto
  with xs show ?thesis by blast
qed

lemma is_valid_email_iff:
  "is_valid_email email \<longleftrightarrow>
     (\<exists>local domain rest.
        split_on CHR ''@'' email = local # domain # rest
        \<and> CHR ''.'' \<in> set domain
        \<and> lower domain \<notin> set excluded_domains
        \<and> (\<forall>pattern \<in> set fake_patterns. \<not> contains (lower email) pattern))"
proof (cases "CHR ''@'' \<in> set email")
  case False
  then have "split_on CHR ''@'' email = [email]" by (rule split_on_absent)
  with False show ?thesis by (simp add: is_valid_email_def is_valid_email_try_def)
next
  case True
  from split_on_second[OF True] obtain local domain rest
    where parts: "split_on CHR ''@'' email = local # domain # rest" by blast
  with True show ?thesis
    by (simp add: is_valid_email_def is_valid_email_try_def list_ex_iff)
qed

text \<open>
  C6. The validator on the four test vectors: \<open>info@example.com\<close> is rejected (its
  domain is excluded), \<open>j.smith@acme.co\<close> is accepted, \<open>noreply@acme.com\<close> is
  rejected, and \<open>not-an-email\<close> is rejected by the test for an \<open>@\<close>, without an
  exception. For every candidate the body of the function returns a truth value and
  raises nothing, and every malformed candidate is invalid: one without an \<open>@\<close>, one
  whose part after the first \<open>@\<close> has no dot (as \<open>user@\<close>, with no text after the
  \<open>@\<close>), one whose domain is excluded, one that holds a placeholder pattern. A
  candidate is valid exactly when none of these rejects it.
\<close>

theorem C6_email_validator_vectors:
  "\<not> is_valid_email ''info@example.com''
   \<and> is_valid_email ''j.smith@acme.co''
   \<and> \<not> is_valid_email ''noreply@acme.com''
   \<and> \<not> is_valid_email ''not-an-email''
   \<and> is_valid_email_try ''not-an-email'' = Inr False
   \<and> \<not> is_valid_email ''user@''
   \<and> (\<forall>candidate. \<exists>b. is_valid_email_try candidate = Inr b)
   \<and> (CHR ''@'' \<notin> set email \<longrightarrow> \<not> is_valid_email email)
   \<and> (split_on CHR ''@'' email = local # domain # rest \<and> CHR ''.'' \<notin> set domain
        \<longrightarrow> \<not> is_valid_email email)
   \<and> (split_on CHR ''@'' email = local # domain # rest \<and> lower domain \<in> set excluded_domains
        \<longrightarrow> \<not> is_valid_email email)
   \<and> (pattern \<in> set fake_patterns \<and> contains (lower email) pattern
        \<longrightarrow> \<not> is_valid_email email)
   \<and> (is_valid_email email \<longleftrightarrow>
        (\<exists>l d r. split_on CHR ''@'' email = l # d # r
           \<and> CHR ''.'' \<in> set d
           \<and> lower d \<notin> set excluded_domains
           \<and> (\<forall>p \<in> set fake_patterns. \<not> contains (lower email) p)))"
proof -
  have "\<not> is_valid_email ''info@example.com''" by code_simp
  moreover have "is_valid_email ''j.smith@acme.co''" by code_simp
  moreover have "\<not> is_valid_email ''noreply@acme.com''" by code_simp
  moreover have "\<not> is_valid_email ''not-an-email''" by code_simp
  moreover have "is_valid_email_try ''not-an-email'' = Inr False" by code_simp
  moreover have "\<not> is_valid_email ''user@''" by code_simp
  moreover have "\<forall>candidate. \<exists>b. is_valid_email_try candidate = Inr b"
    using is_valid_email_try_total by blast
  moreover have "CHR ''@'' \<notin> set email \<longrightarrow> \<not> is_valid_email email"
    by (simp add: is_valid_email_def is_valid_email_try_def)
  moreover have "split_on CHR ''@'' email = local # domain # rest \<and> CHR ''.'' \<notin> set domain
        \<longrightarrow> \<not> is_valid_email email"
    by (auto simp: is_valid_email_iff)
  moreover have "split_on CHR ''@'' email = local # domain # rest
        \<and> lower domain \<in> set excluded_domains \<longrightarrow> \<not> is_valid_email email"
    by (auto simp: is_valid_email_iff)
  moreover have "pattern \<in> set fake_patterns \<and> contains (lower email) pattern
        \<longrightarrow> \<not> is_valid_email email"
    by (auto simp: is_valid_email_iff)
  ultimately show ?thesis
    using is_valid_email_iff[of email] by blast
qed

theorem C6_email_validator_vectors_witness:
  "CHR ''@'' \<notin> set ''not-an-email'' \<and> \<not> is_valid_email ''not-an-email''
   \<and> split_on CHR ''@'' ''user@'' = [''user'', []] \<and> \<not> is_valid_email ''user@''
   \<and> split_on CHR ''@'' ''info@Example.com'' = [''info'', ''Example.com'']
   \<and> lower ''Example.com'' \<in> set excluded_domains \<and> \<not> is_valid_email ''info@Example.com''
   \<and> ''noreply'' \<in> set fake_patterns \<and> contains (lower ''NoReply@acme.com'') ''noreply''
   \<and> \<not> is_valid_email ''NoReply@acme.com''"
proof -
  have no_at: "CHR ''@'' \<notin> set ''not-an-email''"
    by simp
  have user: "split_on CHR ''@'' ''user@'' = [''user'', []]"
    by code_simp
  have no_dot: "CHR ''.'' \<notin> set []"
    by simp
  have info: "split_on CHR ''@'' ''info@Example.com'' = [''info'', ''Example.com'']"
    by code_simp
  have excluded: "lower ''Example.com'' \<in> set excluded_domains"
    by code_simp
  have pattern: "''noreply'' \<in> set fake_patterns"
    by code_simp
  have held: "contains (lower ''NoReply@acme.com'') ''noreply''"
    by code_simp
  have a: "\<not> is_valid_email ''not-an-email''"
    using C6_email_validator_vectors[of "''not-an-email''" "[]" "[]" "[]" "[]"] no_at
    by blast
  have b: "\<not> is_valid_email ''user@''"
    using C6_email_validator_vectors[of "''user@''" "''user''" "[]" "[]" "[]"] user no_dot
    by blast
  have c: "\<not> is_valid_email ''info@Example.com''"
    using C6_email_validator_vectors[of "''info@Example.com''" "''info''" "''Example.com''"
        "[]" "[]"] info excluded
    by blast
  have d: "\<not> is_valid_email ''NoReply@acme.com''"
    using C6_email_validator_vectors[of "''NoReply@acme.com''" "[]" "[]" "[]" "''noreply''"]
      pattern held
    by blast
  show ?thesis
    using no_at a user b info excluded c pattern held d by blast
qed

section \<open>The extractor\<close>

text \<open>
  C10. Every email that \<open>extract_contacts_from_text\<close> returns passes
  \<open>is_valid_email\<close> and is in lower case, so the validator filters nothing out of
  the extractor's emails.
\<close>

theorem C10_extractor_emails_validated:
  "(\<forall>e \<in> fst (extract_contacts_from_text text). is_valid_email e \<and> lower e = e)
   \<and> {e \<in> fst (extract_contacts_from_text text). is_valid_email e}
       = fst (extract_contacts_from_text text)"
  by (auto simp: extract_contacts_from_text_def is_valid_email_lower lower_idem)

theorem C10_extractor_emails_validated_witness:
  "''sales@acme.co'' \<in> fst (extract_contacts_from_text ''Mail Sales@Acme.co'')
   \<and> is_valid_email ''sales@acme.co'' \<and> lower ''sales@acme.co'' = ''sales@acme.co''"
proof -
  have found: "found_emails ''Mail Sales@Acme.co'' = [''Sales@Acme.co'']"
    by code_simp
  have valid: "is_valid_email ''Sales@Acme.co''"
    by code_simp
  have low: "lower ''Sales@Acme.co'' = ''sales@acme.co''"
    by code_simp
  have mem: "''sales@acme.co'' \<in> fst (extract_contacts_from_text ''Mail Sales@Acme.co'')"
    by (simp add: extract_contacts_from_text_def found valid low)
  with C10_extractor_emails_validated[of "''Mail Sales@Acme.co''"] show ?thesis
    by blast
qed

text \<open>What the patterns find in the text of the round-trip example.\<close>

lemma round_trip_found_emails:
  "found_emails ''Contact: john (at) acme (dot) com or call 555-123-4567'' = []"
  by code_simp

lemma round_trip_obfuscated_emails:
  "obfuscated_emails ''Contact: john (at) acme (dot) com or call 555-123-4567''
     = [''john@acme.com'']"
  by code_simp

lemma round_trip_found_phones:
  "found_phones ''Contact: john (at) acme (dot) com or call 555-123-4567''
     = [''555-123-4567'']"
  by code_simp

text \<open>
  C7. For the text \<open>Contact: john (at) acme (dot) com or call 555-123-4567\<close> the
  extractor returns exactly the email set with \<open>john@acme.com\<close>, rebuilt from the
  obfuscated form, and the phone \<open>555-123-4567\<close>, whose digits are \<open>5551234567\<close>.
\<close>

theorem C7_extraction_round_trip:
  "extract_contacts_from_text ''Contact: john (at) acme (dot) com or call 555-123-4567''
     = ({''john@acme.com''}, {''555-123-4567''})
   \<and> filter is_digit ''555-123-4567'' = ''5551234567''"
proof -
  have valid: "is_valid_email ''john@acme.com''"
    by code_simp
  have low: "lower ''john@acme.com'' = ''john@acme.com''"
    by code_simp
  have long: "10 \<le> length (cleaned_phone ''555-123-4567'')"
    by code_simp
  have digits: "filter is_digit ''555-123-4567'' = ''5551234567''"
    by code_simp
  have "extract_contacts_from_text ''Contact: john (at) acme (dot) com or call 555-123-4567''
     = ({''john@acme.com''}, {''555-123-4567''})"
    by (simp add: extract_contacts_from_text_def round_trip_found_emails
        round_trip_obfuscated_emails round_trip_found_phones valid low long)
  then show ?thesis using digits by (rule conjI)
qed

text \<open>
  C2, at a failing input. The extractor keeps the phone \<open>+491234567\<close>: the test
  counts the ten characters of \<open>cleaned_phone\<close>, plus sign included, and the phone
  has nine digits.
\<close>

theorem C2_phone_floor_counts_plus:
  "''+491234567'' \<in> snd (extract_contacts_from_text ''+491234567'')
   \<and> cleaned_phone ''+491234567'' = ''+491234567''
   \<and> length (filter is_digit ''+491234567'') = 9"
proof -
  have found: "found_phones ''+491234567'' = [''+491234567'']"
    by code_simp
  have cleaned: "cleaned_phone ''+491234567'' = ''+491234567''"
    by code_simp
  have digits: "length (filter is_digit ''+491234567'') = 9"
    by code_simp
  have "''+491234567'' \<in> snd (extract_contacts_from_text ''+491234567'')"
    by (simp add: extract_contacts_from_text_def found cleaned)
  then show ?thesis using cleaned digits by blast
qed

section \<open>The categorizer\<close>

lemma categorize_single:
  "categorize_emails [email] =
     filter (\<lambda>(k, v). v \<noteq> []) (categorize_one initial_categories email)"
  by (simp add: categorize_emails_def)

lemma first_match_keys: "first_match d l = Some c \<Longrightarrow> c \<in> fst ` set d"
  by (induction d l rule: first_match.induct) (auto split: if_splits)

lemma kept_after_append:
  "c = ''executive'' \<or> c = ''sales'' \<or> c = ''support'' \<or> c = ''hr'' \<or> c = ''general''
   \<or> c = ''technical'' \<or> c = ''marketing'' \<or> c = ''finance'' \<or> c = ''personal'' \<Longrightarrow>
   filter (\<lambda>(k, v). v \<noteq> []) (append_to c email initial_categories) = [(c, [email])]"
  by (elim disjE; simp add: append_to_def initial_categories_def)

text \<open>The first rule-group that matches decides, whatever comes after it.\<close>

lemma categorize_by_rule:
  assumes "first_match patterns (lower (hd (split_on CHR ''@'' email))) = Some c"
  shows "categorize_emails [email] = [(c, [email])]"
proof -
  have "c \<in> fst ` set patterns"
    using assms by (rule first_match_keys)
  then have "c = ''executive'' \<or> c = ''sales'' \<or> c = ''support'' \<or> c = ''hr''
      \<or> c = ''general'' \<or> c = ''technical'' \<or> c = ''marketing'' \<or> c = ''finance''
      \<or> c = ''personal''"
    unfolding patterns_def by auto
  then have "filter (\<lambda>(k, v). v \<noteq> []) (append_to c email initial_categories)
      = [(c, [email])]"
    by (rule kept_after_append)
  then show ?thesis
    using assms by (simp add: categorize_single categorize_one_def)
qed

text \<open>The fallback, reached only when no rule-group matches.\<close>

lemma categorize_personal:
  assumes "first_match patterns (lower (hd (split_on CHR ''@'' email))) = None"
    and "length (split_on CHR ''.'' (lower (hd (split_on CHR ''@'' email)))) = 2"
  shows "categorize_emails [email] = [(''personal'', [email])]"
proof -
  have "filter (\<lambda>(k, v). v \<noteq> []) (append_to ''personal'' email initial_categories)
      = [(''personal'', [email])]"
    by (rule kept_after_append) simp
  then show ?thesis
    using assms split_on_two_has_sep[OF assms(2)]
    by (simp add: categorize_single categorize_one_def)
qed

lemma sales_hr_rule:
  "first_match patterns (lower (hd (split_on CHR ''@'' ''sales.hr@x.com''))) = Some ''sales''"
  by code_simp

lemma john_smith_rule:
  "first_match patterns (lower (hd (split_on CHR ''@'' ''john.smith@x.com'')))
     = Some ''technical''"
  by code_simp

lemma john_smith_it:
  "contains ''john.smith'' ''it'' \<and> length (split_on CHR ''.'' ''john.smith'') = 2"
  by code_simp

lemma jane_doe_no_rule:
  "first_match patterns (lower (hd (split_on CHR ''@'' ''jane.doe@x.com''))) = None"
  by code_simp

lemma jane_doe_two_parts:
  "length (split_on CHR ''.'' (lower (hd (split_on CHR ''@'' ''jane.doe@x.com'')))) = 2"
  by code_simp

text \<open>The loops over \<open>patterns\<close> find the rule-group of the written-out order.\<close>

lemma first_match_in_order: "first_match patterns l = rule_group_in_order l"
  by (simp add: patterns_def rule_group_in_order_def)

text \<open>The other half of the fallback.\<close>

lemma categorize_general:
  assumes "first_match patterns (lower (hd (split_on CHR ''@'' email))) = None"
    and "length (split_on CHR ''.'' (lower (hd (split_on CHR ''@'' email)))) \<noteq> 2"
  shows "categorize_emails [email] = [(''general'', [email])]"
proof -
  have "filter (\<lambda>(k, v). v \<noteq> []) (append_to ''general'' email initial_categories)
      = [(''general'', [email])]"
    by (rule kept_after_append) simp
  then show ?thesis
    using assms by (simp add: categorize_single categorize_one_def)
qed

lemma director_it_rule:
  "rule_group_in_order (lower (hd (split_on CHR ''@'' ''director.it@x.com'')))
     = Some ''executive''"
  by code_simp

lemma sales_hr_in_order:
  "rule_group_in_order (lower (hd (split_on CHR ''@'' ''sales.hr@x.com''))) = Some ''sales''"
  by code_simp

lemma jane_doe_in_order:
  "rule_group_in_order (lower (hd (split_on CHR ''@'' ''jane.doe@x.com''))) = None"
  by code_simp

lemma jane_doe_segments:
  "split_on CHR ''.'' (lower (hd (split_on CHR ''@'' ''jane.doe@x.com''))) = [''jane'', ''doe'']"
  by code_simp

lemma office_in_order:
  "rule_group_in_order (lower (hd (split_on CHR ''@'' ''a.b.c@x.com''))) = None
   \<and> length (split_on CHR ''.'' (lower (hd (split_on CHR ''@'' ''a.b.c@x.com'')))) = 3"
  by code_simp

text \<open>
  C1, as stated, fails on its second input: \<open>john.smith@x.com\<close> is not assigned to
  personal. The local part \<open>john.smith\<close> has one dot and two segments, but the pattern
  \<open>it\<close> of the rule-group technical occurs in \<open>smith\<close>, so a rule-group matches and
  the email goes to technical.
\<close>

theorem C1_john_smith_is_technical:
  "categorize_emails [''john.smith@x.com''] = [(''technical'', [''john.smith@x.com''])]
   \<and> categorize_emails [''john.smith@x.com''] \<noteq> [(''personal'', [''john.smith@x.com''])]
   \<and> contains ''john.smith'' ''it''
   \<and> length (split_on CHR ''.'' ''john.smith'') = 2"
  using categorize_by_rule[OF john_smith_rule] john_smith_it by simp

text \<open>
  C1, amended. The category of an email is that of the first rule-group, in the order
  executive, sales, support, hr, technical, marketing, finance, general, one of whose
  patterns occurs in the lower-cased local part: \<open>sales.hr@x.com\<close> goes to sales.
  Where no rule-group matches, a local part that its one dot splits into two non-empty
  segments goes to personal, and a local part that \<open>split('.')\<close> does not cut in two
  goes to general.
\<close>

theorem C1_categorization_precedence:
  "categorize_emails [''sales.hr@x.com''] = [(''sales'', [''sales.hr@x.com''])]
   \<and> (rule_group_in_order (lower (hd (split_on CHR ''@'' email))) = Some c
        \<longrightarrow> categorize_emails [email] = [(c, [email])])
   \<and> (rule_group_in_order (lower (hd (split_on CHR ''@'' email))) = None
        \<and> split_on CHR ''.'' (lower (hd (split_on CHR ''@'' email))) = [first, second]
        \<and> first \<noteq> [] \<and> second \<noteq> []
        \<longrightarrow> categorize_emails [email] = [(''personal'', [email])])
   \<and> (rule_group_in_order (lower (hd (split_on CHR ''@'' email))) = None
        \<and> length (split_on CHR ''.'' (lower (hd (split_on CHR ''@'' email)))) \<noteq> 2
        \<longrightarrow> categorize_emails [email] = [(''general'', [email])])"
proof -
  have "categorize_emails [''sales.hr@x.com''] = [(''sales'', [''sales.hr@x.com''])]"
    using sales_hr_rule by (rule categorize_by_rule)
  moreover have "categorize_emails [email] = [(''personal'', [email])]"
    if "rule_group_in_order (lower (hd (split_on CHR ''@'' email))) = None"
      and "split_on CHR ''.'' (lower (hd (split_on CHR ''@'' email))) = [first, second]"
  proof -
    from that(2) have "length (split_on CHR ''.'' (lower (hd (split_on CHR ''@'' email)))) = 2"
      by simp
    with that(1) show ?thesis
      by (intro categorize_personal) (simp_all add: first_match_in_order)
  qed
  ultimately show ?thesis
    using categorize_by_rule[of email c] categorize_general[of email]
    by (simp add: first_match_in_order)
qed

theorem C1_categorization_precedence_witness:
  "rule_group_in_order (lower (hd (split_on CHR ''@'' ''director.it@x.com''))) = Some ''executive''
   \<and> categorize_emails [''director.it@x.com''] = [(''executive'', [''director.it@x.com''])]
   \<and> rule_group_in_order (lower (hd (split_on CHR ''@'' ''jane.doe@x.com''))) = None
   \<and> split_on CHR ''.'' (lower (hd (split_on CHR ''@'' ''jane.doe@x.com''))) = [''jane'', ''doe'']
   \<and> categorize_emails [''jane.doe@x.com''] = [(''personal'', [''jane.doe@x.com''])]
   \<and> categorize_emails [''a.b.c@x.com''] = [(''general'', [''a.b.c@x.com''])]"
proof -
  have executive: "categorize_emails [''director.it@x.com'']
      = [(''executive'', [''director.it@x.com''])]"
    using C1_categorization_precedence[of "''director.it@x.com''" "''executive''" "[]" "[]"]
      director_it_rule
    by blast
  have segments: "''jane'' \<noteq> [] \<and> ''doe'' \<noteq> []"
    by simp
  have personal: "categorize_emails [''jane.doe@x.com''] = [(''personal'', [''jane.doe@x.com''])]"
    using C1_categorization_precedence[of "''jane.doe@x.com''" "[]" "''jane''" "''doe''"]
      jane_doe_in_order jane_doe_segments segments
    by blast
  have three: "(3::nat) \<noteq> 2"
    by simp
  have general: "categorize_emails [''a.b.c@x.com''] = [(''general'', [''a.b.c@x.com''])]"
    using C1_categorization_precedence[of "''a.b.c@x.com''" "[]" "[]" "[]"] office_in_order three
    by metis
  show ?thesis
    using executive personal general director_it_rule jane_doe_in_order jane_doe_segments
    by blast
qed

section \<open>The report parser\<close>

text \<open>The loops of the row normalization compute what the specification describes.\<close>

lemma pop_leading_eq: "pop_leading cells = dropWhile (\<lambda>c. c = []) cells"
  by (induction cells) auto

lemma pop_trailing_eq: "pop_trailing cells = rev (dropWhile (\<lambda>c. c = []) (rev cells))"
proof (induction cells rule: rev_induct)
  case Nil
  then show ?case by (subst pop_trailing.simps) simp
next
  case (snoc x xs)
  then show ?case by (subst pop_trailing.simps) simp
qed

lemma pad_cells_eq: "pad_cells n cells = cells @ replicate (n - length cells) []"
proof (induction n cells rule: pad_cells.induct)
  case (1 n cells)
  show ?case
  proof (cases "length cells < n")
    case True
    then have "n - length cells = Suc (n - Suc (length cells))" by simp
    with True 1 show ?thesis
      by (subst pad_cells.simps) (simp add: replicate_app_Cons_same)
  next
    case False
    then show ?thesis by (subst pad_cells.simps) simp
  qed
qed

lemma row_cells_eq: "row_cells n line = fit_to_width n (trimmed_cells line)"
  by (simp add: row_cells_def fit_to_width_def trimmed_cells_def pop_leading_eq
      pop_trailing_eq pad_cells_eq Let_def)

lemma strip_Nil: "strip [] = []"
  by (simp add: strip_def)

lemma last_dropWhile: "dropWhile P xs \<noteq> [] \<Longrightarrow> last (dropWhile P xs) = last xs"
  by (induction xs) auto

lemma dropWhile_noop: "xs = [] \<or> \<not> P (hd xs) \<Longrightarrow> dropWhile P xs = xs"
  by (cases xs) auto

lemma dropWhile_Nil_rev: "dropWhile P (rev xs) \<noteq> [] \<Longrightarrow> xs \<noteq> []"
  by (cases xs) simp_all

lemma trim_hd:
  assumes "rev (dropWhile P (rev (dropWhile P xs))) \<noteq> []"
  shows "\<not> P (hd (rev (dropWhile P (rev (dropWhile P xs)))))"
proof -
  let ?A = "dropWhile P xs"
  let ?B = "dropWhile P (rev ?A)"
  from assms have B: "?B \<noteq> []" by (simp only: rev_is_Nil_conv not_False_eq_True)
  then have A: "?A \<noteq> []" by (rule dropWhile_Nil_rev)
  have "hd (rev ?B) = last ?B" using B by (simp only: hd_rev)
  also have "\<dots> = last (rev ?A)" using B by (rule last_dropWhile)
  also have "\<dots> = hd ?A" using A by (simp only: last_rev)
  finally have "hd (rev ?B) = hd ?A" .
  with hd_dropWhile[OF A] show ?thesis by metis
qed

lemma trim_idem:
  "rev (dropWhile P (rev (dropWhile P (rev (dropWhile P (rev (dropWhile P xs)))))))
     = rev (dropWhile P (rev (dropWhile P xs)))"
proof (cases "rev (dropWhile P (rev (dropWhile P xs))) = []")
  case True
  then show ?thesis by (simp only: dropWhile.simps rev.simps)
next
  case False
  let ?T = "rev (dropWhile P (rev (dropWhile P xs)))"
  have "\<not> P (hd ?T)" using False by (rule trim_hd)
  then have "dropWhile P ?T = ?T" by (intro dropWhile_noop disjI2)
  then have "rev (dropWhile P (rev (dropWhile P ?T))) = rev (dropWhile P (rev ?T))"
    by (simp only:)
  also have "\<dots> = ?T" by (simp only: rev_rev_ident dropWhile_idem)
  finally show ?thesis .
qed

lemma strip_idem: "strip (strip s) = strip s"
  unfolding strip_def by (rule trim_idem)


lemma trim_subset: "c \<in> set (rev (dropWhile P (rev (dropWhile P xs)))) \<Longrightarrow> c \<in> set xs"
proof -
  assume "c \<in> set (rev (dropWhile P (rev (dropWhile P xs))))"
  then have "c \<in> set (dropWhile P (rev (dropWhile P xs)))" by (simp only: set_rev)
  then have "c \<in> set (rev (dropWhile P xs))" by (rule set_dropWhileD)
  then have "c \<in> set (dropWhile P xs)" by (simp only: set_rev)
  then show ?thesis by (rule set_dropWhileD)
qed


lemma trimmed_cells_stripped: "c \<in> set (trimmed_cells line) \<Longrightarrow> strip c = c"
proof -
  assume "c \<in> set (trimmed_cells line)"
  then have "c \<in> set (split_cells line)"
    unfolding trimmed_cells_def by (rule trim_subset)
  then show ?thesis by (auto simp: split_cells_def strip_idem)
qed

lemma trimmed_cells_hd: "trimmed_cells line \<noteq> [] \<Longrightarrow> hd (trimmed_cells line) \<noteq> []"
  unfolding trimmed_cells_def by (rule trim_hd)

lemma kept_iff:
  assumes "0 < n"
  shows "list_ex (\<lambda>cell. strip cell \<noteq> []) (fit_to_width n (trimmed_cells line))
           \<longleftrightarrow> trimmed_cells line \<noteq> []"
proof (cases "trimmed_cells line = []")
  case True
  then show ?thesis by (simp add: fit_to_width_def list_ex_iff strip_Nil)
next
  case False
  then obtain c cs where t: "trimmed_cells line = c # cs" by (cases "trimmed_cells line") auto
  have "c \<noteq> []" using trimmed_cells_hd[OF False] t by simp
  moreover have "strip c = c" using trimmed_cells_stripped[of c line] t by simp
  moreover obtain m where "n = Suc m" using assms by (cases n) auto
  ultimately show ?thesis using False t by (simp add: fit_to_width_def)
qed

lemma parse_rows_eq:
  assumes "0 < n"
  shows "parse_rows n lines =
    map (fit_to_width n) (filter (\<lambda>cells. cells \<noteq> []) (map trimmed_cells lines))"
proof -
  have "row_cells n = (\<lambda>line. fit_to_width n (trimmed_cells line))"
    by (rule ext) (rule row_cells_eq)
  then have "parse_rows n lines =
      filter (list_ex (\<lambda>cell. strip cell \<noteq> [])) (map (fit_to_width n) (map trimmed_cells lines))"
    by (simp add: parse_rows_def comp_def)
  also have "\<dots> = map (fit_to_width n)
      (filter (\<lambda>cells. list_ex (\<lambda>cell. strip cell \<noteq> []) (fit_to_width n cells)) (map trimmed_cells lines))"
    by (simp add: filter_map comp_def)
  also have "filter (\<lambda>cells. list_ex (\<lambda>cell. strip cell \<noteq> []) (fit_to_width n cells)) (map trimmed_cells lines)
      = filter (\<lambda>cells. cells \<noteq> []) (map trimmed_cells lines)"
  proof (rule filter_cong[OF refl])
    fix cells
    assume "cells \<in> set (map trimmed_cells lines)"
    then obtain line where "cells = trimmed_cells line" by auto
    then show "list_ex (\<lambda>cell. strip cell \<noteq> []) (fit_to_width n cells) = (cells \<noteq> [])"
      using kept_iff[OF assms, of line] by simp
  qed
  finally show ?thesis .
qed





















section \<open>The aggregation\<close>

text \<open>Dictionary assignment.\<close>

lemma keys_dict_set: "fst ` set (dict_set k v d) = insert k (fst ` set d)"
  by (auto simp: dict_set_def image_iff split: if_splits) force+

lemma map_of_replace:
  "map_of (map (\<lambda>(k', v'). if k' = k then (k', v) else (k', v')) d) x
     = (if x = k \<and> k \<in> fst ` set d then Some v else map_of d x)"
proof (induction d)
  case Nil
  show ?case by simp
next
  case (Cons p d)
  obtain a b where p: "p = (a, b)" by (cases p)
  show ?case using Cons by (cases "a = k"; cases "x = k"; simp add: p)
qed

lemma map_of_dict_set: "map_of (dict_set k v d) = (map_of d)(k \<mapsto> v)"
proof (cases "k \<in> fst ` set d")
  case True
  then show ?thesis by (auto simp: dict_set_def fun_eq_iff map_of_replace)
next
  case False
  then have "map_of d k = None" by (simp add: map_of_eq_None_iff)
  with False show ?thesis
    by (auto simp: dict_set_def fun_eq_iff map_add_def split: option.splits)
qed

lemma dict_set_idem: "dict_set k v (dict_set k v d) = dict_set k v d"
proof (cases "k \<in> fst ` set d")
  case True
  then have "k \<in> fst ` set (map (\<lambda>(k', v'). if k' = k then (k', v) else (k', v')) d)"
    by (force simp: image_iff)
  with True show ?thesis by (auto simp: dict_set_def)
next
  case False
  then have "map (\<lambda>(k', v'). if k' = k then (k', v) else (k', v')) d = d"
    by (intro map_idI) (auto simp: image_iff)
  with False show ?thesis by (simp add: dict_set_def)
qed

lemma merge_idem: "merge (merge agg s) s = merge agg s"
  by (simp add: merge_def dict_set_idem Un_assoc)

lemma merge_commute:
  assumes "source_id a \<noteq> source_id b"
  shows "all_emails (merge (merge agg a) b) = all_emails (merge (merge agg b) a)"
    and "all_phones (merge (merge agg a) b) = all_phones (merge (merge agg b) a)"
    and "map_of (method_results (merge (merge agg a) b))
          = map_of (method_results (merge (merge agg b) a))"
  using assms by (auto simp: merge_def map_of_dict_set fun_upd_twist)

lemma found_by_nonempty_iff:
  "found_by_methods d e \<noteq> [] \<longleftrightarrow> (\<exists>(m, es) \<in> set d. e \<in> es)"
  by (auto simp: found_by_methods_def filter_empty_conv)

lemma found_by_dict_set_fresh:
  "k \<notin> fst ` set d \<Longrightarrow>
     found_by_methods (dict_set k v d) e = found_by_methods d e @ (if e \<in> v then [k] else [])"
  by (simp add: dict_set_def found_by_methods_def)

lemma merge_sourced:
  assumes "sourced agg" and "source_id s \<notin> fst ` set (method_results agg)"
  shows "sourced (merge agg s)"
  using assms by (auto simp: sourced_def merge_def found_by_dict_set_fresh)

lemma keys_merge:
  "fst ` set (method_results (merge agg s)) = insert (source_id s) (fst ` set (method_results agg))"
  by (simp add: merge_def keys_dict_set)

text \<open>The four steps of main keep every aggregated email sourced: each step writes
  under a key that no earlier step has used.\<close>

lemma merge_inv:
  assumes "sourced agg" and "fst ` set (method_results agg) \<subseteq> K" and "source_id s \<notin> K"
  shows "sourced (merge agg s) \<and> fst ` set (method_results (merge agg s)) \<subseteq> insert (source_id s) K"
proof -
  from assms(2,3) have "source_id s \<notin> fst ` set (method_results agg)" by blast
  with assms(1) have "sourced (merge agg s)" by (rule merge_sourced)
  moreover from assms(2) have "fst ` set (method_results (merge agg s)) \<subseteq> insert (source_id s) K"
    unfolding keys_merge by blast
  ultimately show ?thesis by blast
qed

lemma empty_sourced: "sourced empty_aggregate \<and> fst ` set (method_results empty_aggregate) \<subseteq> {}"
  by (simp add: sourced_def empty_aggregate_def)

lemma whois_step_inv:
  assumes "sourced agg \<and> fst ` set (method_results agg) \<subseteq> {}"
  shows "sourced (whois_step r agg) \<and> fst ` set (method_results (whois_step r agg)) \<subseteq> {''whois''}"
proof (cases "whois_info_emails r")
  case None
  with assms show ?thesis by (simp add: whois_step_def)
next
  case (Some found)
  have "sourced (merge agg \<lparr>source_id = ''whois'', emails = set (map lower found), phones = {}\<rparr>)
    \<and> fst ` set (method_results (merge agg \<lparr>source_id = ''whois'', emails = set (map lower found), phones = {}\<rparr>))
       \<subseteq> insert (source_id \<lparr>source_id = ''whois'', emails = set (map lower found), phones = {}\<rparr>) {}"
    using assms by (intro merge_inv) simp_all
  with Some show ?thesis by (simp add: whois_step_def)
qed

lemma scraping_step_inv:
  assumes "sourced agg \<and> fst ` set (method_results agg) \<subseteq> {''whois''}"
  shows "sourced (scraping_step r agg)
    \<and> fst ` set (method_results (scraping_step r agg)) \<subseteq> {''website_scraping'', ''whois''}"
proof (cases "scraping_results r")
  case None
  with assms show ?thesis by (auto simp: scraping_step_def)
next
  case (Some found)
  obtain es ps where f: "found = (es, ps)" by (cases found)
  have "sourced (merge agg \<lparr>source_id = ''website_scraping'', emails = es, phones = ps\<rparr>)
    \<and> fst ` set (method_results (merge agg \<lparr>source_id = ''website_scraping'', emails = es, phones = ps\<rparr>))
       \<subseteq> insert (source_id \<lparr>source_id = ''website_scraping'', emails = es, phones = ps\<rparr>) {''whois''}"
    using assms by (intro merge_inv) simp_all
  with Some f assms show ?thesis by (auto simp: scraping_step_def)
qed

lemma web_step_inv:
  assumes "sourced agg \<and> fst ` set (method_results agg) \<subseteq> {''website_scraping'', ''whois''}"
  shows "sourced (web_step r agg)
    \<and> fst ` set (method_results (web_step r agg)) \<subseteq> {''web_search'', ''website_scraping'', ''whois''}"
proof (cases "web_results r")
  case None
  with assms show ?thesis by (auto simp: web_step_def)
next
  case (Some found)
  obtain es ps where f: "found = (es, ps)" by (cases found)
  have "sourced (merge agg \<lparr>source_id = ''web_search'', emails = es, phones = ps\<rparr>)
    \<and> fst ` set (method_results (merge agg \<lparr>source_id = ''web_search'', emails = es, phones = ps\<rparr>))
       \<subseteq> insert (source_id \<lparr>source_id = ''web_search'', emails = es, phones = ps\<rparr>) {''website_scraping'', ''whois''}"
    using assms by (intro merge_inv) simp_all
  with Some f assms show ?thesis by (auto simp: web_step_def)
qed

lemma ai_step_inv:
  assumes "sourced agg \<and> fst ` set (method_results agg) \<subseteq> {''web_search'', ''website_scraping'', ''whois''}"
  shows "sourced (ai_step r agg)"
proof (cases "ai_emails r")
  case None
  with assms show ?thesis by (simp add: ai_step_def)
next
  case (Some es)
  have "sourced (merge agg \<lparr>source_id = ''ai_research'', emails = es, phones = {}\<rparr>)
    \<and> fst ` set (method_results (merge agg \<lparr>source_id = ''ai_research'', emails = es, phones = {}\<rparr>))
       \<subseteq> insert (source_id \<lparr>source_id = ''ai_research'', emails = es, phones = {}\<rparr>) {''web_search'', ''website_scraping'', ''whois''}"
    using assms by (intro merge_inv) simp_all
  with Some show ?thesis by (simp add: ai_step_def)
qed

lemma main_aggregate_sourced: "sourced (main_aggregate r)"
  unfolding main_aggregate_def
  by (intro ai_step_inv web_step_inv scraping_step_inv whois_step_inv empty_sourced)

lemma all_phones_main_aggregate:
  "all_phones (main_aggregate r) =
     (case scraping_results r of None \<Rightarrow> {} | Some (es, ps) \<Rightarrow> ps)
     \<union> (case web_results r of None \<Rightarrow> {} | Some (es, ps) \<Rightarrow> ps)"
  by (auto simp: main_aggregate_def ai_step_def web_step_def scraping_step_def whois_step_def
      merge_def empty_aggregate_def split: option.splits)

lemma all_emails_main_aggregate:
  "all_emails (main_aggregate r) =
     (case whois_info_emails r of None \<Rightarrow> {} | Some found \<Rightarrow> set (map lower found))
     \<union> (case scraping_results r of None \<Rightarrow> {} | Some (es, ps) \<Rightarrow> es)
     \<union> (case web_results r of None \<Rightarrow> {} | Some (es, ps) \<Rightarrow> es)
     \<union> (case ai_emails r of None \<Rightarrow> {} | Some es \<Rightarrow> es)"
  by (auto simp: main_aggregate_def ai_step_def web_step_def scraping_step_def whois_step_def
      merge_def empty_aggregate_def split: option.splits)

lemma all_phones_foldl_merge:
  "all_phones (foldl merge agg srcs) = all_phones agg \<union> \<Union> (phones ` set srcs)"
  by (induction srcs arbitrary: agg) (auto simp: merge_def)

text \<open>The emails of the categories are emails of the input, so every exported email
  record is about an email of the list that was categorized.\<close>

lemma append_to_values:
  "(k, v) \<in> set (append_to c e cats) \<Longrightarrow> \<exists>v'. (k, v') \<in> set cats \<and> set v \<subseteq> insert e (set v')"
  by (auto simp: append_to_def split: if_splits)

lemma categorize_one_values:
  "(k, v) \<in> set (categorize_one cats e) \<Longrightarrow> \<exists>v'. (k, v') \<in> set cats \<and> set v \<subseteq> insert e (set v')"
  by (auto simp: categorize_one_def Let_def dest: append_to_values split: option.splits if_splits)

lemma foldl_categorize_values:
  "(k, v) \<in> set (foldl categorize_one cats es) \<Longrightarrow>
     \<exists>v'. (k, v') \<in> set cats \<and> set v \<subseteq> set es \<union> set v'"
proof (induction es arbitrary: cats)
  case Nil
  then show ?case by auto
next
  case (Cons e es)
  from Cons.IH[of "categorize_one cats e"] Cons.prems
  obtain v1 where v1: "(k, v1) \<in> set (categorize_one cats e)" "set v \<subseteq> set es \<union> set v1"
    by auto
  from categorize_one_values[OF v1(1)] obtain v' where "(k, v') \<in> set cats" "set v1 \<subseteq> insert e (set v')"
    by blast
  with v1(2) show ?case by auto
qed

lemma categorize_emails_subset:
  "(k, v) \<in> set (categorize_emails es) \<Longrightarrow> set v \<subseteq> set es"
proof -
  assume "(k, v) \<in> set (categorize_emails es)"
  then have "(k, v) \<in> set (foldl categorize_one initial_categories es)"
    by (simp add: categorize_emails_def)
  from foldl_categorize_values[OF this]
  obtain v' where "(k, v') \<in> set initial_categories" "set v \<subseteq> set es \<union> set v'" by blast
  moreover from this(1) have "v' = []" by (auto simp: initial_categories_def)
  ultimately show ?thesis by simp
qed

lemma categorize_emails_mem:
  "(k, v) \<in> set (categorize_emails es) \<Longrightarrow> x \<in> set v \<Longrightarrow> x \<in> set es"
  using categorize_emails_subset by blast

lemma export_rows:
  assumes "row \<in> set (export_data f agg email_list phone_list)"
  shows "(Type row = ''Email'' \<and> Contact row \<in> set email_list
          \<and> Found_By row = join '', '' (found_by_methods (method_results agg) (Contact row)))
       \<or> (Type row = ''Phone'' \<and> Contact row \<in> set phone_list
          \<and> Found_By row = ''multi-source'')"
  using assms
  by (auto simp: export_data_def email_row_def phone_row_def split: if_splits
      dest: categorize_emails_mem)

lemma two_formats_found:
  "found_phones ''555-123-4567 555.123.4567'' = [''555-123-4567'', ''555.123.4567'']"
  by code_simp

lemma two_formats_kept:
  "10 \<le> length (cleaned_phone ''555-123-4567'')
   \<and> 10 \<le> length (cleaned_phone ''555.123.4567'')"
  by code_simp

lemma two_formats_same_digits:
  "cleaned_phone ''555-123-4567'' = cleaned_phone ''555.123.4567''"
  by code_simp

lemma two_formats_phones:
  "all_phones (main_aggregate two_formats_research) = {''555-123-4567'', ''555.123.4567''}"
  by (simp add: all_phones_main_aggregate two_formats_research_def case_prod_unfold
      extract_contacts_from_text_def two_formats_found two_formats_kept)

text \<open>
  C3, as stated, fails: a web search whose text holds \<open>555-123-4567\<close> and
  \<open>555.123.4567\<close> leaves both in the aggregated phone set, two distinct entries
  with the same digits.
\<close>

theorem C3_two_formats_both_kept:
  "''555-123-4567'' \<in> all_phones (main_aggregate two_formats_research)
   \<and> ''555.123.4567'' \<in> all_phones (main_aggregate two_formats_research)
   \<and> ''555-123-4567'' \<noteq> ''555.123.4567''
   \<and> cleaned_phone ''555-123-4567'' = cleaned_phone ''555.123.4567''"
  using two_formats_same_digits by (simp add: two_formats_phones)

text \<open>
  C3, amended. The phones are kept as found and compared as strings only: the
  extractor returns the matched texts that pass the length test, a merge adds the phones
  of a source to \<open>all_phones\<close> by set union, and the aggregated phone set of a run is
  the union of the phones of the website scraping and of the web search. No key of
  digits takes part.
\<close>

theorem C3_phones_kept_as_found:
  "snd (extract_contacts_from_text text)
     = {phone \<in> set (found_phones text). 10 \<le> length (cleaned_phone phone)}
   \<and> all_phones (merge agg src) = all_phones agg \<union> phones src
   \<and> all_phones (foldl merge agg srcs) = all_phones agg \<union> \<Union> (phones ` set srcs)
   \<and> all_phones (main_aggregate r)
       = (case scraping_results r of None \<Rightarrow> {} | Some (es, ps) \<Rightarrow> ps)
         \<union> (case web_results r of None \<Rightarrow> {} | Some (es, ps) \<Rightarrow> ps)"
proof -
  have "snd (extract_contacts_from_text text)
     = {phone \<in> set (found_phones text). 10 \<le> length (cleaned_phone phone)}"
    by (auto simp: extract_contacts_from_text_def)
  moreover have "all_phones (merge agg src) = all_phones agg \<union> phones src"
    by (simp add: merge_def)
  ultimately show ?thesis
    using all_phones_foldl_merge all_phones_main_aggregate by blast
qed

lemma phone_only_aggregate:
  "main_aggregate phone_only_research
     = \<lparr>all_emails = {}, all_phones = {''555-123-4567''},
        method_results = [(''website_scraping'', {})]\<rparr>"
  by (simp add: main_aggregate_def phone_only_research_def whois_step_def scraping_step_def
      web_step_def ai_step_def merge_def empty_aggregate_def dict_set_def)

text \<open>
  C4, as stated, fails for phones: after a run in which the website scraping finds
  only the phone \<open>555-123-4567\<close>, the phone is in \<open>all_phones\<close>, no method of
  \<open>method_results\<close> lists it, and its exported record carries the fixed text
  \<open>multi-source\<close>.
\<close>

theorem C4_phone_without_provenance:
  "''555-123-4567'' \<in> all_phones (main_aggregate phone_only_research)
   \<and> found_by_methods (method_results (main_aggregate phone_only_research)) ''555-123-4567'' = []
   \<and> map Found_By (export_data example_form (main_aggregate phone_only_research) []
        [''555-123-4567'']) = [''multi-source'']"
  by (simp add: phone_only_aggregate found_by_methods_def export_data_def phone_row_def)

text \<open>
  C4, amended to the emails. After every run each email of \<open>all_emails\<close> is among
  the emails of at least one method of \<open>method_results\<close>; \<open>found_by_methods\<close> are
  exactly the methods that list it; and every exported record is either an email
  record, whose \<open>Found_By\<close> joins those methods, or a phone record, whose
  \<open>Found_By\<close> is \<open>multi-source\<close>.
\<close>

theorem C4_email_provenance:
  "(\<forall>e \<in> all_emails (main_aggregate r).
      found_by_methods (method_results (main_aggregate r)) e \<noteq> [])
   \<and> set (found_by_methods (method_results agg) e)
       = {m. \<exists>es. (m, es) \<in> set (method_results agg) \<and> e \<in> es}
   \<and> (\<forall>row \<in> set (export_data f agg email_list phone_list).
        (Type row = ''Email'' \<and> Contact row \<in> set email_list
         \<and> Found_By row = join '', '' (found_by_methods (method_results agg) (Contact row)))
        \<or> (Type row = ''Phone'' \<and> Contact row \<in> set phone_list
         \<and> Found_By row = ''multi-source''))"
proof -
  have "\<forall>e \<in> all_emails (main_aggregate r).
      found_by_methods (method_results (main_aggregate r)) e \<noteq> []"
    using main_aggregate_sourced[of r] by (simp add: sourced_def)
  moreover have "set (found_by_methods (method_results agg) e)
       = {m. \<exists>es. (m, es) \<in> set (method_results agg) \<and> e \<in> es}"
    by (auto simp: found_by_methods_def image_iff)
  ultimately show ?thesis
    using export_rows[of _ f agg email_list phone_list] by blast
qed

lemma example_found_by:
  "found_by_methods (method_results (main_aggregate example_research)) ''jane.doe@x.com''
     = [''website_scraping'', ''web_search'']"
  by code_simp

lemma example_email_member: "''jane.doe@x.com'' \<in> all_emails (main_aggregate example_research)"
  by (simp add: all_emails_main_aggregate example_research_def)

lemma example_export:
  "export_data example_form (main_aggregate example_research) [''jane.doe@x.com''] []
     = [email_row example_form (main_aggregate example_research) ''personal'' ''jane.doe@x.com'']"
  using example_email_member categorize_personal[OF jane_doe_no_rule jane_doe_two_parts]
  by (auto simp: export_data_def)

lemma example_join: "join '', '' [''website_scraping'', ''web_search''] = ''website_scraping, web_search''"
  by simp

theorem C4_email_provenance_witness:
  "''jane.doe@x.com'' \<in> all_emails (main_aggregate example_research)
   \<and> found_by_methods (method_results (main_aggregate example_research)) ''jane.doe@x.com'' \<noteq> []
   \<and> email_row example_form (main_aggregate example_research) ''personal'' ''jane.doe@x.com''
       \<in> set (export_data example_form (main_aggregate example_research) [''jane.doe@x.com''] [])
   \<and> Found_By (email_row example_form (main_aggregate example_research) ''personal''
        ''jane.doe@x.com'') = ''website_scraping, web_search''"
proof -
  have row: "email_row example_form (main_aggregate example_research) ''personal'' ''jane.doe@x.com''
       \<in> set (export_data example_form (main_aggregate example_research) [''jane.doe@x.com''] [])"
    by (simp add: example_export)
  have found_by: "Found_By (email_row example_form (main_aggregate example_research) ''personal''
        ''jane.doe@x.com'') = ''website_scraping, web_search''"
    by (simp add: email_row_def example_found_by)
  show ?thesis
    using C4_email_provenance[of example_research "main_aggregate example_research"
        "''jane.doe@x.com''" example_form "[''jane.doe@x.com'']" "[]"]
      example_email_member row found_by
    by blast
qed

text \<open>The run of main is the fold of \<open>merge\<close> over its source results, whose keys
  differ from one another.\<close>

lemma main_aggregate_fold:
  "main_aggregate r = foldl merge empty_aggregate (source_results r)"
  by (simp add: main_aggregate_def source_results_def whois_step_def scraping_step_def
      web_step_def ai_step_def split: option.splits prod.splits)

lemma distinct_source_ids: "distinct (map source_id (source_results r))"
  by (simp add: source_results_def split: option.splits prod.splits)

lemma source_results_ids:
  assumes "a \<in> set (source_results r)" and "b \<in> set (source_results r)" and "a \<noteq> b"
  shows "source_id a \<noteq> source_id b"
  using assms distinct_source_ids[of r]
  by (auto simp: distinct_map inj_on_def)

lemma found_by_two_sources:
  assumes "source_id a \<noteq> source_id b"
  shows "set (found_by_methods (method_results (merge (merge empty_aggregate a) b)) e)
       = set (found_by_methods (method_results (merge (merge empty_aggregate b) a)) e)"
  using assms
  by (auto simp: merge_def empty_aggregate_def dict_set_def found_by_methods_def)

text \<open>
  C5. For every two source results of a run, merging one and then the other into the
  empty aggregate or into any aggregate gives the same emails, the same phones and the
  same \<open>method_results\<close> as dictionaries, and from the empty aggregate every contact
  gets the same set of methods, as merging them in the other order. The source
  results of a run have different keys, and the run is the fold of \<open>merge\<close> over them.
  Merging a source result a second time changes nothing, for every aggregate and
  source result.
\<close>

theorem C5_merge_commutative_idempotent:
  "(a \<in> set (source_results r) \<and> b \<in> set (source_results r) \<longrightarrow>
      all_emails (merge (merge agg a) b) = all_emails (merge (merge agg b) a)
      \<and> all_phones (merge (merge agg a) b) = all_phones (merge (merge agg b) a)
      \<and> map_of (method_results (merge (merge agg a) b))
          = map_of (method_results (merge (merge agg b) a))
      \<and> set (found_by_methods (method_results (merge (merge empty_aggregate a) b)) e)
          = set (found_by_methods (method_results (merge (merge empty_aggregate b) a)) e))
   \<and> main_aggregate r = foldl merge empty_aggregate (source_results r)
   \<and> distinct (map source_id (source_results r))
   \<and> merge (merge agg s) s = merge agg s"
proof -
  have "all_emails (merge (merge agg a) b) = all_emails (merge (merge agg b) a)
      \<and> all_phones (merge (merge agg a) b) = all_phones (merge (merge agg b) a)
      \<and> map_of (method_results (merge (merge agg a) b))
          = map_of (method_results (merge (merge agg b) a))
      \<and> set (found_by_methods (method_results (merge (merge empty_aggregate a) b)) e)
          = set (found_by_methods (method_results (merge (merge empty_aggregate b) a)) e)"
    if "a \<in> set (source_results r)" and "b \<in> set (source_results r)"
  proof (cases "a = b")
    case True
    then show ?thesis by simp
  next
    case False
    with that have "source_id a \<noteq> source_id b" by (rule source_results_ids)
    then show ?thesis
      using merge_commute[of a b agg] found_by_two_sources[of a b e] by blast
  qed
  then show ?thesis
    using main_aggregate_fold[of r] distinct_source_ids[of r] merge_idem[of agg s] by blast
qed

lemma example_source_results:
  "source_results example_research =
     [\<lparr>source_id = ''whois'', emails = set (map lower [''Hostmaster@Acme.co'']), phones = {}\<rparr>,
      \<lparr>source_id = ''website_scraping'', emails = {''jane.doe@x.com''},
        phones = {''555-123-4567''}\<rparr>,
      \<lparr>source_id = ''web_search'', emails = {''jane.doe@x.com''}, phones = {}\<rparr>]"
  by (simp add: source_results_def example_research_def)

theorem C5_merge_commutative_idempotent_witness:
  "\<lparr>source_id = ''website_scraping'', emails = {''jane.doe@x.com''},
      phones = {''555-123-4567''}\<rparr> \<in> set (source_results example_research)
   \<and> \<lparr>source_id = ''web_search'', emails = {''jane.doe@x.com''}, phones = {}\<rparr>
       \<in> set (source_results example_research)
   \<and> map_of (method_results
        (merge (merge empty_aggregate
           \<lparr>source_id = ''website_scraping'', emails = {''jane.doe@x.com''},
             phones = {''555-123-4567''}\<rparr>)
           \<lparr>source_id = ''web_search'', emails = {''jane.doe@x.com''}, phones = {}\<rparr>))
       = map_of (method_results
        (merge (merge empty_aggregate
           \<lparr>source_id = ''web_search'', emails = {''jane.doe@x.com''}, phones = {}\<rparr>)
           \<lparr>source_id = ''website_scraping'', emails = {''jane.doe@x.com''},
             phones = {''555-123-4567''}\<rparr>))
   \<and> all_phones
        (merge (merge empty_aggregate
           \<lparr>source_id = ''website_scraping'', emails = {''jane.doe@x.com''},
             phones = {''555-123-4567''}\<rparr>)
           \<lparr>source_id = ''web_search'', emails = {''jane.doe@x.com''}, phones = {}\<rparr>)
       = all_phones
        (merge (merge empty_aggregate
           \<lparr>source_id = ''web_search'', emails = {''jane.doe@x.com''}, phones = {}\<rparr>)
           \<lparr>source_id = ''website_scraping'', emails = {''jane.doe@x.com''},
             phones = {''555-123-4567''}\<rparr>)"
proof -
  have scraped: "\<lparr>source_id = ''website_scraping'', emails = {''jane.doe@x.com''},
      phones = {''555-123-4567''}\<rparr> \<in> set (source_results example_research)"
    by (simp add: example_source_results)
  have searched: "\<lparr>source_id = ''web_search'', emails = {''jane.doe@x.com''}, phones = {}\<rparr>
       \<in> set (source_results example_research)"
    by (simp add: example_source_results)
  show ?thesis
    using C5_merge_commutative_idempotent[of
        "\<lparr>source_id = ''website_scraping'', emails = {''jane.doe@x.com''},
          phones = {''555-123-4567''}\<rparr>"
        example_research
        "\<lparr>source_id = ''web_search'', emails = {''jane.doe@x.com''}, phones = {}\<rparr>"
        empty_aggregate "[]" "\<lparr>source_id = [], emails = {}, phones = {}\<rparr>"]
      scraped searched
    by blast
qed

end
